theory Spec2Isabelle
  imports Main
begin

section \<open>JavaScript strings and the string methods the repository calls\<close>

text \<open>
  A JavaScript string is a sequence of UTF-16 code units. The model uses \<^typ>\<open>string\<close>,
  whose characters are the code units below 256 (ASCII and the Latin-1 supplement); file
  names of widgets are made of letters and digits, so this covers them. \<open>code c\<close> is the
  numeric value of a code unit.
\<close>

definition code :: "char \<Rightarrow> nat" where
  "code c = of_char c"

text \<open>The character class \<^verbatim>\<open>[A-Z]\<close> of the regular expression \<^verbatim>\<open>/([A-Z])/g\<close>.\<close>

definition isUpperAZ :: "char \<Rightarrow> bool" where
  "isUpperAZ c = (65 \<le> code c \<and> code c \<le> 90)"

text \<open>The letters \<^verbatim>\<open>a\<close> to \<^verbatim>\<open>z\<close>: what the specification calls a lowercase letter.\<close>

definition isLowerAZ :: "char \<Rightarrow> bool" where
  "isLowerAZ c = (97 \<le> code c \<and> code c \<le> 122)"

text \<open>
  \<^verbatim>\<open>s.replace(/([A-Z])/g, pre + "$1")\<close>: every match of the global regular expression is
  one capital letter, and the replacement is the literal text \<open>pre\<close> followed by the
  captured letter. Characters outside the class are copied. The source calls it with
  \<open>pre = "-"\<close> and with \<open>pre = " "\<close>.
\<close>

definition replaceCapitals :: "string \<Rightarrow> string \<Rightarrow> string" where
  "replaceCapitals pre s = concat (map (\<lambda>c. if isUpperAZ c then pre @ [c] else [c]) s)"

text \<open>
  \<^verbatim>\<open>String.prototype.toLowerCase\<close> on one code unit below 256: \<^verbatim>\<open>A\<close>..\<^verbatim>\<open>Z\<close> and the
  Latin-1 capitals U+00C0..U+00DE (without the multiplication sign U+00D7) move up by 32,
  every other code unit is left alone.
\<close>

definition lowerChar :: "char \<Rightarrow> char" where
  "lowerChar c =
     (if (65 \<le> code c \<and> code c \<le> 90) \<or> (192 \<le> code c \<and> code c \<le> 222 \<and> code c \<noteq> 215)
      then char_of (code c + 32) else c)"

definition toLowerCase :: "string \<Rightarrow> string" where
  "toLowerCase s = map lowerChar s"

text \<open>
  \<^verbatim>\<open>s.slice(1)\<close>: the string without its first code unit; on the empty string the start
  index is clamped to the length and the result is the empty string (no error).
\<close>

definition slice1 :: "string \<Rightarrow> string" where
  "slice1 s = drop 1 s"

text \<open>
  \<^verbatim>\<open>s.trim()\<close> removes white space and line terminators from both ends. Below 256 these
  are TAB, LF, VT, FF, CR, space and the no-break space U+00A0.
\<close>

definition isWhiteSpace :: "char \<Rightarrow> bool" where
  "isWhiteSpace c = (code c \<in> {9, 10, 11, 12, 13, 32, 160})"

definition trim :: "string \<Rightarrow> string" where
  "trim s = rev (dropWhile isWhiteSpace (rev (dropWhile isWhiteSpace s)))"

text \<open>\<^verbatim>\<open>s.endsWith(suffix)\<close>.\<close>

definition endsWith :: "string \<Rightarrow> string \<Rightarrow> bool" where
  "endsWith s suffix =
     (length suffix \<le> length s \<and> drop (length s - length suffix) s = suffix)"

text \<open>
  \<^verbatim>\<open>s.replace(pat, rep)\<close> with a string pattern: only the first occurrence of \<open>pat\<close>
  (scanning from the left) is replaced; a string without an occurrence is returned
  unchanged. (\<open>rep\<close> is taken literally: the source passes the empty string.)
\<close>

fun replaceFirst :: "string \<Rightarrow> string \<Rightarrow> string \<Rightarrow> string" where
  "replaceFirst pat rep [] = (if pat = [] then rep else [])"
| "replaceFirst pat rep (c # cs) =
     (if take (length pat) (c # cs) = pat then rep @ drop (length pat) (c # cs)
      else c # replaceFirst pat rep cs)"

section \<open>The name transformer (src/utils/tool-names.ts)\<close>

definition toKebabCase :: "string \<Rightarrow> string" where
  "toKebabCase componentName = slice1 (toLowerCase (replaceCapitals ''-'' componentName))"

definition toTitleCase :: "string \<Rightarrow> string" where
  "toTitleCase componentName = trim (replaceCapitals '' '' componentName)"

section \<open>The page generator (scripts/generate-pages.ts)\<close>

text \<open>
  The state the script acts on: the directory \<^verbatim>\<open>src/pages\<close> as a map from file name to
  file content, and the lines written to the console. \<^verbatim>\<open>join(pagesDir, name)\<close> names the
  entry \<open>name\<close> of that directory, since a file name holds no path separator. A console
  line is recorded by its interpolated part: \<open>Generated f\<close> for the per-page notice with
  the file name \<open>f\<close>, \<open>Summary n\<close> for the closing count. File-system failures
  (an exception of \<^verbatim>\<open>readdirSync\<close> or \<^verbatim>\<open>writeFileSync\<close>) are outside the model: the
  listing is given and every write succeeds.
\<close>

datatype log_line = Generated string | Summary nat

record gen_state =
  pages :: "string \<rightharpoonup> string"
  console :: "log_line list"

text \<open>\<^verbatim>\<open>writeFileSync(join(pagesDir, name), content)\<close>: creates or overwrites the file.\<close>

definition writeFileSync :: "string \<Rightarrow> string \<Rightarrow> gen_state \<Rightarrow> gen_state" where
  "writeFileSync name content st = st\<lparr>pages := (pages st)(name \<mapsto> content)\<rparr>"

definition console_log :: "log_line \<Rightarrow> gen_state \<Rightarrow> gen_state" where
  "console_log l st = st\<lparr>console := console st @ [l]\<rparr>"

text \<open>The three constants of one loop iteration, as the script computes them.\<close>

definition componentName_of :: "string \<Rightarrow> string" where
  "componentName_of file = replaceFirst ''.tsx'' '''' file"

definition pageName_of :: "string \<Rightarrow> string" where
  "pageName_of componentName = slice1 (toLowerCase (replaceCapitals ''-'' componentName))"

definition pageContent_of :: "string \<Rightarrow> string" where
  "pageContent_of componentName =
     ''---\<newline>'' @
     ''import Layout from '' @ [CHR 0x22] @ ''@/layouts/Layout.astro'' @ [CHR 0x22] @ '';\<newline>'' @
     ''import '' @ componentName @ '' from '' @ [CHR 0x22] @ ''@/tools/'' @ componentName
        @ [CHR 0x22] @ '';\<newline>'' @
     ''---\<newline>'' @
     ''\<newline>'' @
     ''<Layout>\<newline>'' @
     [CHR 0x09] @ ''<'' @ componentName @ '' client:load />\<newline>'' @
     ''</Layout>\<newline>''"

text \<open>The name of the page file written for a source file: \<^verbatim>\<open>`${pageName}.astro`\<close>.\<close>

definition pageFile_of :: "string \<Rightarrow> string" where
  "pageFile_of file = pageName_of (componentName_of file) @ ''.astro''"

text \<open>The body of the \<^verbatim>\<open>for\<close> loop.\<close>

definition process_file :: "string \<Rightarrow> gen_state \<Rightarrow> gen_state" where
  "process_file file st =
     (let componentName = componentName_of file;
          pageName = pageName_of componentName;
          pageContent = pageContent_of componentName
      in console_log (Generated (pageName @ ''.astro''))
           (writeFileSync (pageName @ ''.astro'') pageContent st))"

text \<open>The loop \<^verbatim>\<open>for (const file of files)\<close>.\<close>

primrec for_files :: "string list \<Rightarrow> gen_state \<Rightarrow> gen_state" where
  "for_files [] st = st"
| "for_files (file # files) st = for_files files (process_file file st)"

text \<open>
  One run of the script on the listing of \<^verbatim>\<open>src/tools\<close> (the result of
  \<^verbatim>\<open>readdirSync\<close>) and the present content of \<^verbatim>\<open>src/pages\<close>. Each run is a fresh process,
  so the console starts empty.
\<close>

definition generate_pages :: "string list \<Rightarrow> (string \<rightharpoonup> string) \<Rightarrow> gen_state" where
  "generate_pages listing pagesDir =
     (let files = filter (\<lambda>file. endsWith file ''.tsx'') listing;
          st = for_files files \<lparr>pages = pagesDir, console = []\<rparr>
      in console_log (Summary (length files)) st)"

section \<open>Vocabulary of the specification\<close>

text \<open>
  A capitalized word: one capital letter followed by lowercase letters (possibly none).
  A PascalCase identifier is the concatenation \<open>concat ws\<close> of a non-empty list \<open>ws\<close> of
  capitalized words.
\<close>

definition capitalizedWord :: "string \<Rightarrow> bool" where
  "capitalizedWord w = (case w of [] \<Rightarrow> False | c # cs \<Rightarrow> isUpperAZ c \<and> list_all isLowerAZ cs)"

text \<open>\<open>joinWords sep [w0, ..., wn] = w0 + sep + w1 + ... + sep + wn\<close>.\<close>

fun joinWords :: "string \<Rightarrow> string list \<Rightarrow> string" where
  "joinWords sep [] = []"
| "joinWords sep [w] = w"
| "joinWords sep (w # v # ws) = w @ sep @ joinWords sep (v # ws)"

section \<open>Code units\<close>

lemma code_char_of: "code (char_of (n::nat)) = n mod 256"
  by (simp add: code_def)

lemma code_inj: "code c = code d \<longleftrightarrow> c = d"
  by (simp add: code_def)

lemma code_hyphen: "code (CHR ''-'') = 45"
  by (simp add: code_def)

lemma code_space: "code (CHR '' '') = 32"
  by (simp add: code_def)

lemma code_lowerChar:
  "code (lowerChar c) =
     (if (65 \<le> code c \<and> code c \<le> 90) \<or> (192 \<le> code c \<and> code c \<le> 222 \<and> code c \<noteq> 215)
      then code c + 32 else code c)"
  by (auto simp: lowerChar_def code_char_of)

lemma not_upper_lowerChar: "\<not> isUpperAZ (lowerChar c)"
  by (auto simp: isUpperAZ_def code_lowerChar)

lemma lowerChar_upper_lower: "isUpperAZ c \<Longrightarrow> isLowerAZ (lowerChar c)"
  by (auto simp: isUpperAZ_def isLowerAZ_def code_lowerChar)

lemma lowerChar_lower: "isLowerAZ c \<Longrightarrow> lowerChar c = c"
  by (auto simp: isLowerAZ_def lowerChar_def)

lemma lowerChar_eq_hyphen: "lowerChar c = CHR ''-'' \<longleftrightarrow> c = CHR ''-''"
proof -
  have "lowerChar c = CHR ''-'' \<longleftrightarrow> code (lowerChar c) = 45"
    using code_inj [of "lowerChar c" "CHR ''-''"] by (simp add: code_hyphen)
  also have "\<dots> \<longleftrightarrow> code c = 45"
    by (auto simp: code_lowerChar)
  also have "\<dots> \<longleftrightarrow> c = CHR ''-''"
    using code_inj [of c "CHR ''-''"] by (simp add: code_hyphen)
  finally show ?thesis .
qed

lemma upper_not_lower: "isUpperAZ c \<Longrightarrow> \<not> isLowerAZ c"
  by (auto simp: isUpperAZ_def isLowerAZ_def)

lemma hyphen_not_upper: "\<not> isUpperAZ (CHR ''-'')"
  by (simp add: isUpperAZ_def code_hyphen)

lemma hyphen_not_lower: "\<not> isLowerAZ (CHR ''-'')"
  by (simp add: isLowerAZ_def code_hyphen)

lemma space_not_upper: "\<not> isUpperAZ (CHR '' '')"
  by (simp add: isUpperAZ_def code_space)

lemma upper_not_ws: "isUpperAZ c \<Longrightarrow> \<not> isWhiteSpace c"
  by (auto simp: isUpperAZ_def isWhiteSpace_def)

lemma lower_not_ws: "isLowerAZ c \<Longrightarrow> \<not> isWhiteSpace c"
  by (auto simp: isLowerAZ_def isWhiteSpace_def)

lemma space_ws: "isWhiteSpace (CHR '' '')"
  by (simp add: isWhiteSpace_def code_space)

section \<open>Identifiers made of capitalized words\<close>

lemma replaceCapitals_append:
  "replaceCapitals pre (s @ t) = replaceCapitals pre s @ replaceCapitals pre t"
  by (simp add: replaceCapitals_def)

lemma replaceCapitals_no_capital:
  "list_all (\<lambda>c. \<not> isUpperAZ c) s \<Longrightarrow> replaceCapitals pre s = s"
  by (induction s) (simp_all add: replaceCapitals_def)

lemma lower_no_capital: "list_all isLowerAZ s \<Longrightarrow> list_all (\<lambda>c. \<not> isUpperAZ c) s"
  by (induction s) (auto dest: upper_not_lower)

lemma replaceCapitals_word:
  "capitalizedWord w \<Longrightarrow> replaceCapitals pre w = pre @ w"
proof (cases w)
  case Nil
  assume "capitalizedWord w"
  with Nil show ?thesis by (simp add: capitalizedWord_def)
next
  case (Cons c cs)
  assume "capitalizedWord w"
  with Cons have c: "isUpperAZ c" and cs: "list_all isLowerAZ cs"
    by (simp_all add: capitalizedWord_def)
  have "replaceCapitals pre (c # cs) = (pre @ [c]) @ replaceCapitals pre cs"
    using c by (simp add: replaceCapitals_def)
  also have "replaceCapitals pre cs = cs"
    using cs by (simp add: replaceCapitals_no_capital lower_no_capital)
  finally show ?thesis using Cons by simp
qed

lemma replaceCapitals_words:
  "list_all capitalizedWord ws \<Longrightarrow>
   replaceCapitals pre (concat ws) = concat (map ((@) pre) ws)"
proof (induction ws)
  case Nil
  show ?case by (simp add: replaceCapitals_def)
next
  case (Cons w ws)
  then show ?case by (simp add: replaceCapitals_append replaceCapitals_word)
qed

lemma concat_sep_joinWords:
  "ws \<noteq> [] \<Longrightarrow> concat (map ((@) sep) ws) = sep @ joinWords sep ws"
  by (induction sep ws rule: joinWords.induct) simp_all

lemma joinWords_map_toLowerCase:
  "toLowerCase (joinWords sep ws) = joinWords (toLowerCase sep) (map toLowerCase ws)"
  by (induction sep ws rule: joinWords.induct) (simp_all add: toLowerCase_def)

lemma toLowerCase_hyphen: "toLowerCase ''-'' = ''-''"
  using lowerChar_eq_hyphen [of "CHR ''-''"] by (simp add: toLowerCase_def)

lemma toKebabCase_words:
  assumes "ws \<noteq> []" and "list_all capitalizedWord ws"
  shows "toKebabCase (concat ws) = joinWords ''-'' (map toLowerCase ws)"
proof -
  have "replaceCapitals ''-'' (concat ws) = concat (map ((@) ''-'') ws)"
    using assms(2) by (rule replaceCapitals_words)
  also have "\<dots> = ''-'' @ joinWords ''-'' ws"
    using assms(1) by (rule concat_sep_joinWords)
  finally have "toLowerCase (replaceCapitals ''-'' (concat ws))
      = toLowerCase ''-'' @ toLowerCase (joinWords ''-'' ws)"
    by (simp add: toLowerCase_def)
  then show ?thesis
    by (simp add: toKebabCase_def slice1_def joinWords_map_toLowerCase toLowerCase_hyphen)
qed

lemma toTitleCase_pre:
  assumes "ws \<noteq> []" and "list_all capitalizedWord ws"
  shows "replaceCapitals '' '' (concat ws) = CHR '' '' # joinWords '' '' ws"
proof -
  have "replaceCapitals '' '' (concat ws) = concat (map ((@) '' '') ws)"
    using assms(2) by (rule replaceCapitals_words)
  also have "\<dots> = '' '' @ joinWords '' '' ws"
    using assms(1) by (rule concat_sep_joinWords)
  finally show ?thesis by simp
qed

lemma trim_space_cons:
  assumes "s \<noteq> []" and "\<not> isWhiteSpace (hd s)" and "\<not> isWhiteSpace (last s)"
  shows "trim (CHR '' '' # s) = s"
proof -
  obtain c cs where s: "s = c # cs" using assms(1) by (cases s) auto
  have front: "dropWhile isWhiteSpace (CHR '' '' # s) = s"
    using assms(2) s by (simp add: space_ws)
  have "dropWhile isWhiteSpace (rev s) = rev s"
    using assms(1,3) by (simp add: dropWhile_eq_self_iff hd_rev)
  with front show ?thesis by (simp add: trim_def)
qed

lemma hd_joinWords: "ws \<noteq> [] \<Longrightarrow> hd ws \<noteq> [] \<Longrightarrow> hd (joinWords sep ws) = hd (hd ws)"
  by (induction sep ws rule: joinWords.induct) simp_all

lemma joinWords_nonempty_last:
  "ws \<noteq> [] \<Longrightarrow> last ws \<noteq> [] \<Longrightarrow> joinWords sep ws \<noteq> []"
  by (induction sep ws rule: joinWords.induct) simp_all

lemma last_joinWords:
  "ws \<noteq> [] \<Longrightarrow> last ws \<noteq> [] \<Longrightarrow> last (joinWords sep ws) = last (last ws)"
proof (induction sep ws rule: joinWords.induct)
  case (3 sep w v ws)
  have "joinWords sep (v # ws) \<noteq> []"
    using "3.prems" by (intro joinWords_nonempty_last) simp_all
  then have "last (joinWords sep (w # v # ws)) = last (joinWords sep (v # ws))"
    by simp
  also have "\<dots> = last (last (v # ws))"
    using "3.prems" by (intro "3.IH") simp_all
  finally show ?case by simp
qed simp_all

lemma joinWords_nonempty: "ws \<noteq> [] \<Longrightarrow> hd ws \<noteq> [] \<Longrightarrow> joinWords sep ws \<noteq> []"
  by (induction sep ws rule: joinWords.induct) simp_all

lemma capitalizedWord_nonempty: "capitalizedWord w \<Longrightarrow> w \<noteq> []"
  by (auto simp: capitalizedWord_def)

lemma capitalizedWord_hd: "capitalizedWord w \<Longrightarrow> isUpperAZ (hd w)"
  by (cases w) (auto simp: capitalizedWord_def)

lemma capitalizedWord_last: "capitalizedWord w \<Longrightarrow> isUpperAZ (last w) \<or> isLowerAZ (last w)"
  by (cases w) (auto simp: capitalizedWord_def list_all_iff)

lemma capitalizedWord_letters: "capitalizedWord w \<Longrightarrow> c \<in> set w \<Longrightarrow> isUpperAZ c \<or> isLowerAZ c"
  by (cases w) (auto simp: capitalizedWord_def list_all_iff)

lemma toTitleCase_words:
  assumes "ws \<noteq> []" and "list_all capitalizedWord ws"
  shows "toTitleCase (concat ws) = joinWords '' '' ws"
proof -
  have h: "capitalizedWord (hd ws)" and l: "capitalizedWord (last ws)"
    using assms by (simp_all add: list_all_iff)
  have ne: "joinWords '' '' ws \<noteq> []"
    using assms(1) h by (simp add: joinWords_nonempty capitalizedWord_nonempty)
  have "hd (joinWords '' '' ws) = hd (hd ws)"
    using assms(1) h by (simp add: hd_joinWords capitalizedWord_nonempty)
  then have a: "\<not> isWhiteSpace (hd (joinWords '' '' ws))"
    using h by (simp add: capitalizedWord_hd upper_not_ws)
  have "last (joinWords '' '' ws) = last (last ws)"
    using assms(1) l by (simp add: last_joinWords capitalizedWord_nonempty)
  then have b: "\<not> isWhiteSpace (last (joinWords '' '' ws))"
    using capitalizedWord_last [OF l] by (auto simp: upper_not_ws lower_not_ws)
  show ?thesis
    unfolding toTitleCase_def toTitleCase_pre [OF assms]
    using ne a b by (rule trim_space_cons)
qed

lemma space_not_lower: "\<not> isLowerAZ (CHR '' '')"
  by (simp add: isLowerAZ_def code_space)

lemma toLowerCase_word_lower:
  assumes "capitalizedWord w"
  shows "list_all isLowerAZ (toLowerCase w)"
proof -
  have "isLowerAZ (lowerChar c)" if "c \<in> set w" for c
    using capitalizedWord_letters [OF assms that]
    by (auto simp: lowerChar_upper_lower lowerChar_lower)
  then show ?thesis by (simp add: toLowerCase_def list_all_iff)
qed

lemma toLowerCase_word_nonempty: "capitalizedWord w \<Longrightarrow> toLowerCase w \<noteq> []"
  by (simp add: toLowerCase_def capitalizedWord_nonempty)

lemma toLowerCase_word_no_hyphen:
  "capitalizedWord w \<Longrightarrow> CHR ''-'' \<notin> set (toLowerCase w)"
  using toLowerCase_word_lower [of w] hyphen_not_lower by (auto simp: list_all_iff)

lemma word_no_space: "capitalizedWord w \<Longrightarrow> CHR '' '' \<notin> set w"
  using capitalizedWord_letters [of w "CHR '' ''"] space_not_upper space_not_lower by blast

lemma toLowerCase_concat: "toLowerCase (concat ws) = concat (map toLowerCase ws)"
  by (induction ws) (simp_all add: toLowerCase_def)

lemma count_joinWords:
  "ws \<noteq> [] \<Longrightarrow> \<forall>w\<in>set ws. c \<notin> set w \<Longrightarrow> count_list (joinWords [c] ws) c = length ws - 1"
  by (induction "[c]" ws rule: joinWords.induct) simp_all

lemma filter_joinWords:
  "\<forall>w\<in>set ws. c \<notin> set w \<Longrightarrow> filter (\<lambda>x. x \<noteq> c) (joinWords [c] ws) = concat ws"
  by (induction "[c]" ws rule: joinWords.induct) (auto simp: filter_id_conv)

lemma toKebabCase_no_capital: "list_all (\<lambda>c. \<not> isUpperAZ c) (toKebabCase s)"
proof -
  have "\<not> isUpperAZ c" if "c \<in> set (toKebabCase s)" for c
  proof -
    from that have "c \<in> set (toLowerCase (replaceCapitals ''-'' s))"
      by (auto simp: toKebabCase_def slice1_def dest: in_set_dropD)
    then show ?thesis by (auto simp: toLowerCase_def not_upper_lowerChar)
  qed
  then show ?thesis by (simp add: list_all_iff)
qed

lemma set_joinWords: "set (joinWords sep ws) \<subseteq> set sep \<union> (\<Union>w\<in>set ws. set w)"
  by (induction sep ws rule: joinWords.induct) auto

lemma length_replaceCapitals:
  "length (replaceCapitals pre s) = length s + length pre * length (filter isUpperAZ s)"
  by (induction s) (simp_all add: replaceCapitals_def)

lemma length_trim_le: "length (trim s) \<le> length s"
proof -
  have "length (dropWhile P xs) \<le> length xs" for P and xs :: string
    by (induction xs) simp_all
  from this [of isWhiteSpace "rev (dropWhile isWhiteSpace s)"] this [of isWhiteSpace s]
  show ?thesis by (simp add: trim_def)
qed

section \<open>The name transformer on PascalCase identifiers\<close>

text \<open>
  Claim C1. For an identifier that is the concatenation of one or more capitalized words
  \<open>w0 ... wn\<close>, \<open>toKebabCase\<close> returns \<open>lower(w0) + "-" + ... + "-" + lower(wn)\<close>, and every
  segment \<open>lower(wi)\<close> is non-empty and free of hyphens. A single capitalized word is only
  lowercased: no leading hyphen, no empty segment. \<open>toKebabCase("CircleImageCropper")\<close> is
  \<open>"circle-image-cropper"\<close>, and \<open>toKebabCase("HTTPClient")\<close> is \<open>"h-t-t-p-client"\<close>: one
  hyphen per capital letter after the first.
\<close>

theorem C1_toKebabCase_capitalized_words:
  "(ws \<noteq> [] \<and> list_all capitalizedWord ws \<longrightarrow>
      toKebabCase (concat ws) = joinWords ''-'' (map toLowerCase ws)
      \<and> (\<forall>v\<in>set (map toLowerCase ws). v \<noteq> [] \<and> CHR ''-'' \<notin> set v))
   \<and> (capitalizedWord w \<longrightarrow>
      toKebabCase w = toLowerCase w \<and> toKebabCase w \<noteq> [] \<and> CHR ''-'' \<notin> set (toKebabCase w))
   \<and> toKebabCase ''CircleImageCropper'' = ''circle-image-cropper''
   \<and> toKebabCase ''HTTPClient'' = ''h-t-t-p-client''"
proof (intro conjI impI)
  assume a: "ws \<noteq> [] \<and> list_all capitalizedWord ws"
  then show "toKebabCase (concat ws) = joinWords ''-'' (map toLowerCase ws)"
    by (simp add: toKebabCase_words)
  from a show "\<forall>v\<in>set (map toLowerCase ws). v \<noteq> [] \<and> CHR ''-'' \<notin> set v"
    by (auto simp: list_all_iff toLowerCase_word_nonempty toLowerCase_word_no_hyphen)
next
  assume w: "capitalizedWord w"
  then have k: "toKebabCase w = toLowerCase w"
    using toKebabCase_words [of "[w]"] by simp
  then show "toKebabCase w = toLowerCase w" .
  from k w show "toKebabCase w \<noteq> []"
    by (simp add: toLowerCase_word_nonempty)
  from k w show "CHR ''-'' \<notin> set (toKebabCase w)"
    by (simp add: toLowerCase_word_no_hyphen)
next
  show "toKebabCase ''CircleImageCropper'' = ''circle-image-cropper''"
    by code_simp
  show "toKebabCase ''HTTPClient'' = ''h-t-t-p-client''"
    by code_simp
qed

theorem C1_toKebabCase_capitalized_words_witness:
  "list_all capitalizedWord [''Sg'', ''Tax'', ''Calculator'']
   \<and> toKebabCase ''SgTaxCalculator'' = ''sg-tax-calculator''
   \<and> capitalizedWord ''Foo'' \<and> toKebabCase ''Foo'' = ''foo''"
proof -
  have h: "list_all capitalizedWord [''Sg'', ''Tax'', ''Calculator'']" by code_simp
  have g: "capitalizedWord ''Foo''" by code_simp
  have l: "joinWords ''-'' (map toLowerCase [''Sg'', ''Tax'', ''Calculator'']) = ''sg-tax-calculator''"
    by code_simp
  have m: "toLowerCase ''Foo'' = ''foo''" by code_simp
  from C1_toKebabCase_capitalized_words [of "[''Sg'', ''Tax'', ''Calculator'']" "''Foo''"] h g l m
  show ?thesis by simp
qed

text \<open>
  Claim C4. For a PascalCase identifier of \<open>n\<close> capitalized words (\<open>n \<ge> 1\<close>),
  \<open>toKebabCase\<close> returns a string with exactly \<open>n - 1\<close> hyphens and no capital letter; every
  character of it is a lowercase letter or a hyphen.
\<close>

theorem C4_toKebabCase_hyphen_count:
  assumes "ws \<noteq> []" and "list_all capitalizedWord ws"
  shows "count_list (toKebabCase (concat ws)) (CHR ''-'') = length ws - 1
       \<and> list_all (\<lambda>c. \<not> isUpperAZ c) (toKebabCase (concat ws))
       \<and> list_all (\<lambda>c. isLowerAZ c \<or> c = CHR ''-'') (toKebabCase (concat ws))"
proof -
  have "\<forall>w\<in>set (map toLowerCase ws). CHR ''-'' \<notin> set w"
    using assms(2) by (auto simp: list_all_iff toLowerCase_word_no_hyphen)
  then have "count_list (joinWords ''-'' (map toLowerCase ws)) (CHR ''-'') = length (map toLowerCase ws) - 1"
    using assms(1) by (intro count_joinWords) simp_all
  then have "count_list (toKebabCase (concat ws)) (CHR ''-'') = length ws - 1"
    using assms by (simp add: toKebabCase_words)
  moreover have "list_all (\<lambda>c. isLowerAZ c \<or> c = CHR ''-'') (toKebabCase (concat ws))"
  proof -
    have "isLowerAZ c" if "w \<in> set ws" and "c \<in> set (toLowerCase w)" for w c
      using that assms(2) toLowerCase_word_lower [of w] by (auto simp: list_all_iff)
    then have "isLowerAZ c \<or> c = CHR ''-''" if "c \<in> set (joinWords ''-'' (map toLowerCase ws))" for c
      using set_joinWords [of "''-''" "map toLowerCase ws"] that by auto
    then show ?thesis
      using assms by (simp add: toKebabCase_words list_all_iff)
  qed
  ultimately show ?thesis
    using toKebabCase_no_capital [of "concat ws"] by simp
qed

theorem C4_toKebabCase_hyphen_count_witness:
  "list_all capitalizedWord [''H'', ''T'', ''T'', ''P'', ''Client'']
   \<and> toKebabCase ''HTTPClient'' = ''h-t-t-p-client''
   \<and> count_list (toKebabCase ''HTTPClient'') (CHR ''-'') = 4
   \<and> list_all (\<lambda>c. \<not> isUpperAZ c) (toKebabCase ''HTTPClient'')"
proof -
  have h: "list_all capitalizedWord [''H'', ''T'', ''T'', ''P'', ''Client'']" by code_simp
  have k: "toKebabCase ''HTTPClient'' = ''h-t-t-p-client''" by code_simp
  from C4_toKebabCase_hyphen_count [of "[''H'', ''T'', ''T'', ''P'', ''Client'']"] h k
  show ?thesis by simp
qed

text \<open>
  Claim C5. For a PascalCase identifier \<open>W\<close>, \<open>toTitleCase W\<close> with its spaces removed and
  then lowercased is \<open>toKebabCase W\<close> with its hyphens removed.
\<close>

theorem C5_title_slug_agree:
  assumes "ws \<noteq> []" and "list_all capitalizedWord ws"
  shows "toLowerCase (filter (\<lambda>c. c \<noteq> CHR '' '') (toTitleCase (concat ws)))
       = filter (\<lambda>c. c \<noteq> CHR ''-'') (toKebabCase (concat ws))"
proof -
  have "\<forall>w\<in>set ws. CHR '' '' \<notin> set w"
    using assms(2) by (auto simp: list_all_iff word_no_space)
  then have l: "filter (\<lambda>c. c \<noteq> CHR '' '') (joinWords '' '' ws) = concat ws"
    by (rule filter_joinWords)
  have "\<forall>w\<in>set (map toLowerCase ws). CHR ''-'' \<notin> set w"
    using assms(2) by (auto simp: list_all_iff toLowerCase_word_no_hyphen)
  then have r: "filter (\<lambda>c. c \<noteq> CHR ''-'') (joinWords ''-'' (map toLowerCase ws))
      = concat (map toLowerCase ws)"
    by (rule filter_joinWords)
  show ?thesis
    by (simp only: toTitleCase_words [OF assms] toKebabCase_words [OF assms] l r toLowerCase_concat)
qed

theorem C5_title_slug_agree_witness:
  "list_all capitalizedWord [''Sg'', ''Tax'', ''Calculator'']
   \<and> toLowerCase (filter (\<lambda>c. c \<noteq> CHR '' '') (toTitleCase ''SgTaxCalculator''))
       = filter (\<lambda>c. c \<noteq> CHR ''-'') (toKebabCase ''SgTaxCalculator'')
   \<and> filter (\<lambda>c. c \<noteq> CHR ''-'') (toKebabCase ''SgTaxCalculator'') = ''sgtaxcalculator''"
proof -
  have h: "list_all capitalizedWord [''Sg'', ''Tax'', ''Calculator'']" by code_simp
  have k: "filter (\<lambda>c. c \<noteq> CHR ''-'') (toKebabCase ''SgTaxCalculator'') = ''sgtaxcalculator''"
    by code_simp
  from C5_title_slug_agree [of "[''Sg'', ''Tax'', ''Calculator'']"] h k
  show ?thesis by simp
qed

text \<open>
  Claim C6. For an identifier that is the concatenation of one or more capitalized words,
  \<open>toTitleCase\<close> returns the words separated by single spaces (a space before every
  capital letter but the first), a non-empty string that neither starts nor ends with a
  space. A single capitalized word is returned unchanged, and
  \<open>toTitleCase("SgTaxCalculator")\<close> is \<open>"Sg Tax Calculator"\<close>.
\<close>

theorem C6_toTitleCase_capitalized_words:
  "(ws \<noteq> [] \<and> list_all capitalizedWord ws \<longrightarrow>
      toTitleCase (concat ws) = joinWords '' '' ws
      \<and> toTitleCase (concat ws) \<noteq> []
      \<and> hd (toTitleCase (concat ws)) \<noteq> CHR '' ''
      \<and> last (toTitleCase (concat ws)) \<noteq> CHR '' '')
   \<and> (capitalizedWord w \<longrightarrow> toTitleCase w = w)
   \<and> toTitleCase ''SgTaxCalculator'' = ''Sg Tax Calculator''"
proof (intro conjI impI)
  assume a: "ws \<noteq> [] \<and> list_all capitalizedWord ws"
  then have ne: "ws \<noteq> []" and all: "list_all capitalizedWord ws" by simp_all
  have h: "capitalizedWord (hd ws)" and l: "capitalizedWord (last ws)"
    using ne all by (simp_all add: list_all_iff)
  show t: "toTitleCase (concat ws) = joinWords '' '' ws"
    using ne all by (rule toTitleCase_words)
  show "toTitleCase (concat ws) \<noteq> []"
    using ne h by (simp add: t joinWords_nonempty capitalizedWord_nonempty)
  have "hd (toTitleCase (concat ws)) = hd (hd ws)"
    using ne h by (simp add: t hd_joinWords capitalizedWord_nonempty)
  then show "hd (toTitleCase (concat ws)) \<noteq> CHR '' ''"
    using capitalizedWord_hd [OF h] space_not_upper by auto
  have "last (toTitleCase (concat ws)) = last (last ws)"
    using ne l by (simp add: t last_joinWords capitalizedWord_nonempty)
  then show "last (toTitleCase (concat ws)) \<noteq> CHR '' ''"
    using capitalizedWord_last [OF l] space_not_upper space_not_lower by auto
next
  assume "capitalizedWord w"
  then show "toTitleCase w = w"
    using toTitleCase_words [of "[w]"] by simp
next
  show "toTitleCase ''SgTaxCalculator'' = ''Sg Tax Calculator''"
    by code_simp
qed

theorem C6_toTitleCase_capitalized_words_witness:
  "list_all capitalizedWord [''Circle'', ''Image'', ''Cropper'']
   \<and> toTitleCase ''CircleImageCropper'' = ''Circle Image Cropper''
   \<and> capitalizedWord ''Foo'' \<and> toTitleCase ''Foo'' = ''Foo''"
proof -
  have h: "list_all capitalizedWord [''Circle'', ''Image'', ''Cropper'']" by code_simp
  have g: "capitalizedWord ''Foo''" by code_simp
  from C6_toTitleCase_capitalized_words [of "[''Circle'', ''Image'', ''Cropper'']" "''Foo''"] h g
  show ?thesis by simp
qed

section \<open>The name transformer on arbitrary strings\<close>

text \<open>
  Claim C8. \<open>toKebabCase\<close> and \<open>toTitleCase\<close> return a string for every input string: no
  method they call has an error path for a string receiver, and the model is a
  composition of total list functions. The result of \<open>toKebabCase\<close> has one code unit more
  per capital letter of the input and one less for the dropped first code unit (none on
  the empty string); the result of \<open>toTitleCase\<close> is at most that long before the drop. The
  empty string is mapped to the empty string by both, and inputs with digits, spaces and
  punctuation pass through.
\<close>

theorem C8_name_transformer_total:
  "(\<exists>r. toKebabCase s = r \<and> length r = length s + length (filter isUpperAZ s) - 1)
   \<and> (\<exists>r. toTitleCase s = r \<and> length r \<le> length s + length (filter isUpperAZ s))
   \<and> toKebabCase [] = [] \<and> toTitleCase [] = []
   \<and> toKebabCase ''9 to_5!'' = '' to_5!'' \<and> toTitleCase '' 9 To_5! '' = ''9  To_5!''"
proof (intro conjI)
  show "\<exists>r. toKebabCase s = r \<and> length r = length s + length (filter isUpperAZ s) - 1"
    by (simp add: toKebabCase_def slice1_def toLowerCase_def length_replaceCapitals)
  show "\<exists>r. toTitleCase s = r \<and> length r \<le> length s + length (filter isUpperAZ s)"
    using length_trim_le [of "replaceCapitals '' '' s"]
    by (simp add: toTitleCase_def length_replaceCapitals)
  show "toKebabCase [] = []" by code_simp
  show "toTitleCase [] = []" by code_simp
  show "toKebabCase ''9 to_5!'' = '' to_5!''" by code_simp
  show "toTitleCase '' 9 To_5! '' = ''9  To_5!''" by code_simp
qed

theorem C8_name_transformer_total_witness:
  "toKebabCase ''HTTPClient'' = ''h-t-t-p-client''
   \<and> length ''h-t-t-p-client'' = length ''HTTPClient'' + length (filter isUpperAZ ''HTTPClient'') - 1"
proof -
  have "toKebabCase ''HTTPClient'' = ''h-t-t-p-client''" by code_simp
  with C8_name_transformer_total [of "''HTTPClient''"] show ?thesis by simp
qed

text \<open>
  Claim C10. On an input without a capital letter, \<open>toKebabCase\<close> returns the lowercased
  input without its first character. So a non-empty identifier of lowercase letters loses
  its first letter and is never returned as it is, a one-letter lowercase identifier gives
  the empty slug, \<open>toKebabCase("foo") = "oo"\<close>, \<open>toKebabCase("a") = ""\<close> and
  \<open>toKebabCase("") = ""\<close>.
\<close>

theorem C10_toKebabCase_without_capitals:
  "(list_all (\<lambda>c. \<not> isUpperAZ c) s \<longrightarrow> toKebabCase s = drop 1 (toLowerCase s))
   \<and> (s \<noteq> [] \<and> list_all isLowerAZ s \<longrightarrow> toKebabCase s = drop 1 s \<and> toKebabCase s \<noteq> s)
   \<and> (isLowerAZ c \<longrightarrow> toKebabCase [c] = [])
   \<and> toKebabCase ''foo'' = ''oo'' \<and> toKebabCase ''a'' = [] \<and> toKebabCase [] = []"
proof (intro conjI impI)
  assume "list_all (\<lambda>c. \<not> isUpperAZ c) s"
  then show "toKebabCase s = drop 1 (toLowerCase s)"
    by (simp add: toKebabCase_def slice1_def replaceCapitals_no_capital)
next
  assume a: "s \<noteq> [] \<and> list_all isLowerAZ s"
  then have "toLowerCase s = s"
    by (simp add: toLowerCase_def list_all_iff lowerChar_lower map_idI)
  then show k: "toKebabCase s = drop 1 s"
    using a by (simp add: toKebabCase_def slice1_def replaceCapitals_no_capital lower_no_capital)
  have "length (drop 1 s) \<noteq> length s" using a by (cases s) simp_all
  then have "drop 1 s \<noteq> s" by metis
  with k show "toKebabCase s \<noteq> s" by simp
next
  assume "isLowerAZ c"
  then have "\<not> isUpperAZ c" using upper_not_lower by blast
  then show "toKebabCase [c] = []"
    by (simp add: toKebabCase_def slice1_def toLowerCase_def replaceCapitals_def)
next
  show "toKebabCase ''foo'' = ''oo''" by code_simp
  show "toKebabCase ''a'' = []" by code_simp
  show "toKebabCase [] = []" by code_simp
qed

theorem C10_toKebabCase_without_capitals_witness:
  "list_all (\<lambda>c. \<not> isUpperAZ c) ''my-tool2'' \<and> toKebabCase ''my-tool2'' = ''y-tool2''
   \<and> list_all isLowerAZ ''viz'' \<and> toKebabCase ''viz'' = ''iz'' \<and> toKebabCase ''viz'' \<noteq> ''viz''
   \<and> isLowerAZ (CHR ''q'') \<and> toKebabCase ''q'' = []"
proof -
  have a: "list_all (\<lambda>c. \<not> isUpperAZ c) ''my-tool2''" by code_simp
  have b: "list_all isLowerAZ ''viz''" by code_simp
  have c: "isLowerAZ (CHR ''q'')" by code_simp
  have d: "drop 1 (toLowerCase ''my-tool2'') = ''y-tool2''" by code_simp
  from C10_toKebabCase_without_capitals [of "''my-tool2''" "CHR ''q''"]
       C10_toKebabCase_without_capitals [of "''viz''" "CHR ''q''"] a b c d
  show ?thesis by simp
qed

section \<open>The page generator\<close>

lemma pages_process_file:
  "pages (process_file file st) =
     (pages st)(pageFile_of file \<mapsto> pageContent_of (componentName_of file))"
  by (simp add: process_file_def console_log_def writeFileSync_def pageFile_of_def Let_def)

lemma console_process_file:
  "console (process_file file st) = console st @ [Generated (pageFile_of file)]"
  by (simp add: process_file_def console_log_def writeFileSync_def pageFile_of_def Let_def)

lemma find_append_last:
  "find P (xs @ [x]) = (case find P xs of None \<Rightarrow> (if P x then Some x else None) | Some y \<Rightarrow> Some y)"
  by (induction xs) simp_all

lemma pages_for_files:
  "pages (for_files files st) p =
     (case find (\<lambda>file. pageFile_of file = p) (rev files) of
        None \<Rightarrow> pages st p
      | Some file \<Rightarrow> Some (pageContent_of (componentName_of file)))"
proof (induction files arbitrary: st)
  case Nil
  show ?case by simp
next
  case (Cons f fs)
  show ?case
    by (simp add: Cons.IH pages_process_file find_append_last split: option.splits)
qed

lemma console_for_files:
  "console (for_files files st) = console st @ map (\<lambda>file. Generated (pageFile_of file)) files"
  by (induction files arbitrary: st) (simp_all add: console_process_file)

lemma pages_generate_pages:
  "pages (generate_pages listing pagesDir) p =
     (case find (\<lambda>file. pageFile_of file = p) (rev (filter (\<lambda>file. endsWith file ''.tsx'') listing)) of
        None \<Rightarrow> pagesDir p
      | Some file \<Rightarrow> Some (pageContent_of (componentName_of file)))"
  by (simp add: generate_pages_def Let_def console_log_def pages_for_files split: option.splits)

lemma console_generate_pages:
  "console (generate_pages listing pagesDir) =
     map (\<lambda>file. Generated (pageFile_of file)) (filter (\<lambda>file. endsWith file ''.tsx'') listing)
     @ [Summary (length (filter (\<lambda>file. endsWith file ''.tsx'') listing))]"
  by (simp add: generate_pages_def Let_def console_log_def console_for_files)

lemma generate_pages_eqI:
  "pages (generate_pages l d) = pages (generate_pages l' d') \<Longrightarrow>
   console (generate_pages l d) = console (generate_pages l' d') \<Longrightarrow>
   generate_pages l d = generate_pages l' d'"
  by (rule gen_state.equality) simp_all

lemma find_append:
  "find P (xs @ ys) = (case find P xs of None \<Rightarrow> find P ys | Some x \<Rightarrow> Some x)"
  by (induction xs) simp_all

lemma replaceFirst_only_suffix:
  "\<forall>i<length b. take (length pat) (drop i (b @ pat)) \<noteq> pat \<Longrightarrow>
   replaceFirst pat rep (b @ pat) = b @ rep"
proof (induction b)
  case Nil
  show ?case by (cases pat) simp_all
next
  case (Cons c b)
  from Cons.prems have "take (length pat) (drop 0 ((c # b) @ pat)) \<noteq> pat"
    by blast
  then have here: "take (length pat) (c # b @ pat) \<noteq> pat" by simp
  have "\<forall>i<length b. take (length pat) (drop i (b @ pat)) \<noteq> pat"
  proof (intro allI impI)
    fix i assume "i < length b"
    then have "Suc i < length (c # b)" by simp
    with Cons.prems have "take (length pat) (drop (Suc i) ((c # b) @ pat)) \<noteq> pat"
      by blast
    then show "take (length pat) (drop i (b @ pat)) \<noteq> pat" by simp
  qed
  then have "replaceFirst pat rep (b @ pat) = b @ rep" by (rule Cons.IH)
  with here show ?case by simp
qed

lemma componentName_of_only_suffix:
  assumes "\<forall>i<length b. take (length ''.tsx'') (drop i (b @ ''.tsx'')) \<noteq> ''.tsx''"
  shows "endsWith (b @ ''.tsx'') ''.tsx''" and "componentName_of (b @ ''.tsx'') = b"
proof -
  show "endsWith (b @ ''.tsx'') ''.tsx''" by (simp add: endsWith_def)
  from assms have "replaceFirst ''.tsx'' [] (b @ ''.tsx'') = b @ []"
    by (rule replaceFirst_only_suffix)
  then show "componentName_of (b @ ''.tsx'') = b"
    by (simp add: componentName_of_def)
qed

text \<open>
  Claim C9. The slug computation written out in the page generator and the exported
  \<open>toKebabCase\<close> are the same function.
\<close>

theorem C9_pageName_of_eq_toKebabCase: "pageName_of s = toKebabCase s"
  by (simp add: pageName_of_def toKebabCase_def)

theorem C9_pageName_of_eq_toKebabCase_witness:
  "pageName_of ''EinopsViz'' = toKebabCase ''EinopsViz'' \<and> toKebabCase ''EinopsViz'' = ''einops-viz''"
proof -
  have "toKebabCase ''EinopsViz'' = ''einops-viz''" by code_simp
  with C9_pageName_of_eq_toKebabCase [of "''EinopsViz''"] show ?thesis by simp
qed

text \<open>
  Claim C3. The generation pass is a function of the listing and the pages directory, and
  it is idempotent: run again on the same listing and on the directory the first run
  left, it leaves every file of the directory as it was and prints the same lines.
\<close>

theorem C3_generate_pages_idempotent:
  "generate_pages listing (pages (generate_pages listing pagesDir)) = generate_pages listing pagesDir"
proof (rule generate_pages_eqI)
  show "pages (generate_pages listing (pages (generate_pages listing pagesDir)))
      = pages (generate_pages listing pagesDir)"
    by (rule ext) (simp add: pages_generate_pages split: option.splits)
  show "console (generate_pages listing (pages (generate_pages listing pagesDir)))
      = console (generate_pages listing pagesDir)"
    by (simp add: console_generate_pages)
qed

theorem C3_generate_pages_idempotent_witness:
  "generate_pages [''FooBar.tsx'', ''notes.md'', ''Foo-bar.tsx'']
     (pages (generate_pages [''FooBar.tsx'', ''notes.md'', ''Foo-bar.tsx''] Map.empty))
   = generate_pages [''FooBar.tsx'', ''notes.md'', ''Foo-bar.tsx''] Map.empty"
  by (rule C3_generate_pages_idempotent)

text \<open>
  Claim C7. Let two distinct source files \<open>f1\<close> and \<open>f2\<close> of the listing, \<open>f1\<close> before
  \<open>f2\<close>, have the same slug, and let no source file after \<open>f2\<close> have that slug (\<open>f2\<close> is
  the later-processed one). Then the run ends with the page \<open>slug.astro\<close> holding the
  content generated for \<open>f2\<close>, and nothing but success is reported: the console shows one
  notice per source file, both colliding files included, and the count of all of them.
\<close>

theorem C7_slug_collision_last_write_wins:
  assumes "listing = xs @ f1 # ys @ f2 # zs"
    and "endsWith f1 ''.tsx''" and "endsWith f2 ''.tsx''" and "f1 \<noteq> f2"
    and "pageName_of (componentName_of f1) = pageName_of (componentName_of f2)"
    and "\<forall>f\<in>set zs. endsWith f ''.tsx'' \<longrightarrow>
           pageName_of (componentName_of f) \<noteq> pageName_of (componentName_of f2)"
  shows "pages (generate_pages listing pagesDir) (pageName_of (componentName_of f1) @ ''.astro'')
           = Some (pageContent_of (componentName_of f2))
       \<and> console (generate_pages listing pagesDir)
           = map (\<lambda>file. Generated (pageFile_of file)) (filter (\<lambda>file. endsWith file ''.tsx'') listing)
             @ [Summary (length (filter (\<lambda>file. endsWith file ''.tsx'') listing))]"
proof -
  let ?tsx = "\<lambda>file. endsWith file ''.tsx''"
  let ?p = "pageName_of (componentName_of f1) @ ''.astro''"
  let ?hit = "\<lambda>file. pageFile_of file = ?p"
  have split: "rev (filter ?tsx listing)
      = rev (filter ?tsx zs) @ f2 # rev (filter ?tsx (xs @ f1 # ys))"
    using assms(1,3) by simp
  have "\<not> ?hit f" if "f \<in> set (rev (filter ?tsx zs))" for f
    using that assms(5,6) by (auto simp: pageFile_of_def)
  then have none: "find ?hit (rev (filter ?tsx zs)) = None"
    by (auto simp: find_None_iff)
  have hit: "?hit f2"
    using assms(5) by (simp add: pageFile_of_def)
  have "find ?hit (rev (filter ?tsx listing)) = Some f2"
    unfolding split find_append none using hit by simp
  then have "pages (generate_pages listing pagesDir) ?p = Some (pageContent_of (componentName_of f2))"
    by (simp add: pages_generate_pages)
  then show ?thesis
    by (simp add: console_generate_pages)
qed

theorem C7_slug_collision_last_write_wins_witness:
  "endsWith ''FooBar.tsx'' ''.tsx'' \<and> endsWith ''Foo-bar.tsx'' ''.tsx''
   \<and> ''FooBar.tsx'' \<noteq> ''Foo-bar.tsx''
   \<and> pageName_of (componentName_of ''FooBar.tsx'') = ''foo-bar''
   \<and> pageName_of (componentName_of ''Foo-bar.tsx'') = ''foo-bar''
   \<and> pages (generate_pages [''FooBar.tsx'', ''Foo-bar.tsx''] Map.empty) ''foo-bar.astro''
       = Some (pageContent_of ''Foo-bar'')
   \<and> pageContent_of ''Foo-bar'' \<noteq> pageContent_of ''FooBar''
   \<and> console (generate_pages [''FooBar.tsx'', ''Foo-bar.tsx''] Map.empty)
       = [Generated ''foo-bar.astro'', Generated ''foo-bar.astro'', Summary 2]"
proof -
  have e1: "endsWith ''FooBar.tsx'' ''.tsx''" by code_simp
  have e2: "endsWith ''Foo-bar.tsx'' ''.tsx''" by code_simp
  have d: "''FooBar.tsx'' \<noteq> ''Foo-bar.tsx''" by simp
  have c1: "componentName_of ''FooBar.tsx'' = ''FooBar''" by code_simp
  have c2: "componentName_of ''Foo-bar.tsx'' = ''Foo-bar''" by code_simp
  have n1: "pageName_of ''FooBar'' = ''foo-bar''" by code_simp
  have n2: "pageName_of ''Foo-bar'' = ''foo-bar''" by code_simp
  have f1: "pageFile_of ''FooBar.tsx'' = ''foo-bar.astro''"
    by (simp add: pageFile_of_def c1 n1)
  have f2: "pageFile_of ''Foo-bar.tsx'' = ''foo-bar.astro''"
    by (simp add: pageFile_of_def c2 n2)
  have ne: "pageContent_of ''Foo-bar'' \<noteq> pageContent_of ''FooBar''"
    by (simp add: pageContent_of_def)
  have s: "pageName_of (componentName_of ''FooBar.tsx'') = pageName_of (componentName_of ''Foo-bar.tsx'')"
    by (simp add: c1 c2 n1 n2)
  from C7_slug_collision_last_write_wins
    [of "[''FooBar.tsx'', ''Foo-bar.tsx'']" "[]" "''FooBar.tsx''" "[]" "''Foo-bar.tsx''" "[]" Map.empty,
     OF _ e1 e2 d s]
  show ?thesis
    using e1 e2 by (simp add: c1 c2 n1 n2 f1 f2 ne)
qed

text \<open>
  Claim C2, at the file name \<open>A.tsxB.tsx\<close>. The name ends in \<open>.tsx\<close>, so the file is
  processed. \<^verbatim>\<open>file.replace(".tsx", "")\<close> removes the first occurrence of \<open>.tsx\<close>, which is
  not the suffix here: the component name is \<open>AB.tsx\<close>, not the name without its suffix
  (\<open>A.tsxB\<close>). The page written is \<open>a-b.tsx.astro\<close>, importing \<open>AB.tsx\<close>; the page of
  the slug of \<open>A.tsxB\<close> is not written. (Lemma \<open>componentName_of_only_suffix\<close> shows that
  the component name is the file name without its suffix whenever \<open>.tsx\<close> occurs at the
  end only.)
\<close>

theorem C2_componentName_of_interior_suffix:
  "endsWith ''A.tsxB.tsx'' ''.tsx''
   \<and> componentName_of ''A.tsxB.tsx'' = ''AB.tsx''
   \<and> componentName_of ''A.tsxB.tsx'' \<noteq> take (length ''A.tsxB.tsx'' - length ''.tsx'') ''A.tsxB.tsx''
   \<and> console (generate_pages [''A.tsxB.tsx''] Map.empty) = [Generated ''a-b.tsx.astro'', Summary 1]
   \<and> pages (generate_pages [''A.tsxB.tsx''] Map.empty) ''a-b.tsx.astro''
       = Some (pageContent_of ''AB.tsx'')
   \<and> pages (generate_pages [''A.tsxB.tsx''] Map.empty) (toKebabCase ''A.tsxB'' @ ''.astro'') = None"
proof -
  have e: "endsWith ''A.tsxB.tsx'' ''.tsx''" by code_simp
  have c: "componentName_of ''A.tsxB.tsx'' = ''AB.tsx''" by code_simp
  have n: "pageName_of ''AB.tsx'' = ''a-b.tsx''" by code_simp
  have k: "toKebabCase ''A.tsxB'' = ''a.tsx-b''" by code_simp
  have f: "pageFile_of ''A.tsxB.tsx'' = ''a-b.tsx.astro''"
    by (simp add: pageFile_of_def c n)
  show ?thesis
    using e by (simp add: c k f pages_generate_pages console_generate_pages)
qed

end
